theory Spec2Isabelle
  imports Main "HOL-Library.Multiset" "HOL-Library.Char_ord" "HOL-Library.List_Lexorder"
begin

section \<open>The winners table\<close>

text \<open>
  The bot keeps one SQLite table, \<^verbatim>\<open>winners (username TEXT PRIMARY KEY, wins INTEGER)\<close>.
  A row is a pair of a username and a win count; the table is the list of its rows in
  rowid order, which is the order of insertion (the code never deletes a row, and an
  UPDATE keeps the rowid). Every function of the source opens a connection of its own
  with \<^verbatim>\<open>sqlite3.connect(DATABASE_FILE)\<close>; the database counts them, so that an
  access to the store is visible even when it only reads.

  Python's integers are unbounded, so a count is an \<open>int\<close>. A count that is bound to a
  statement must fit SQLite's 64-bit INTEGER: otherwise \<^verbatim>\<open>execute\<close> raises
  \<^verbatim>\<open>OverflowError\<close> before the statement runs. The database file is taken to be
  readable and writable: a storage failure is outside this model.
\<close>

datatype error = TypeError | OverflowError

definition min_integer :: int where
  "min_integer = - (2 ^ 63)"

definition max_integer :: int where
  "max_integer = 2 ^ 63 - 1"

definition fits_integer :: "int \<Rightarrow> bool" where
  "fits_integer i = (min_integer \<le> i \<and> i \<le> max_integer)"

type_synonym row = "string \<times> int"

record database =
  winners :: "row list"
  connects :: nat

text \<open>\<^verbatim>\<open>SELECT wins FROM winners WHERE username = ?\<close> followed by \<^verbatim>\<open>fetchone()\<close>:
  the first matching row, or Python's \<open>None\<close>.\<close>

definition select_wins :: "string \<Rightarrow> row list \<Rightarrow> int option" where
  "select_wins username rows =
     (case filter (\<lambda>r. fst r = username) rows of [] \<Rightarrow> None | r # _ \<Rightarrow> Some (snd r))"

text \<open>\<^verbatim>\<open>INSERT INTO winners (username, wins) VALUES (?, ?)\<close>: the new row gets the next
  rowid. The source reaches it only when no row has this username, so the primary key
  cannot reject it.\<close>

definition insert_row :: "string \<Rightarrow> int \<Rightarrow> row list \<Rightarrow> row list" where
  "insert_row username wins rows = rows @ [(username, wins)]"

text \<open>\<^verbatim>\<open>UPDATE winners SET wins = ? WHERE username = ?\<close>: every matching row, in place.\<close>

definition update_wins :: "int \<Rightarrow> string \<Rightarrow> row list \<Rightarrow> row list" where
  "update_wins new_count username rows =
     map (\<lambda>r. if fst r = username then (fst r, new_count) else r) rows"

text \<open>\<^verbatim>\<open>increment_win_count\<close> has no \<^verbatim>\<open>return\<close> statement: when it returns, the caller
  gets Python's \<open>None\<close>, written \<open>Inr (None :: int option)\<close> here, together with the
  database after the commit. When the new count does not fit an INTEGER, the UPDATE
  raises \<^verbatim>\<open>OverflowError\<close>: the connection has been opened and no row has changed.\<close>

definition increment_win_count :: "string \<Rightarrow> database \<Rightarrow> (error + int option) \<times> database" where
  "increment_win_count username d =
     (let d1 = d\<lparr>connects := Suc (connects d)\<rparr>;
          row = select_wins username (winners d1)
      in case row of
           None \<Rightarrow> (Inr None, d1\<lparr>winners := insert_row username 1 (winners d1)\<rparr>)
         | Some wins \<Rightarrow>
             (let new_count = wins + 1
              in if fits_integer new_count
                 then (Inr None, d1\<lparr>winners := update_wins new_count username (winners d1)\<rparr>)
                 else (Inl OverflowError, d1)))"

text \<open>\<^verbatim>\<open>SELECT username, wins FROM winners ORDER BY wins DESC\<close>: the only sort key is the
  count. SQLite scans the table in rowid order and its sorter keeps rows with equal
  keys in scan order, so the result is the stable sort of the rows by descending count.\<close>

definition get_leaderboard :: "database \<Rightarrow> row list \<times> database" where
  "get_leaderboard d =
     (sort_key (\<lambda>r. - snd r) (winners d), d\<lparr>connects := Suc (connects d)\<rparr>)"

text \<open>The count the store holds for an identity, 0 when it has no row.\<close>

definition stored_count :: "database \<Rightarrow> string \<Rightarrow> int" where
  "stored_count d username =
     (case select_wins username (winners d) of None \<Rightarrow> 0 | Some wins \<Rightarrow> wins)"

text \<open>\<open>n\<close> calls of \<^verbatim>\<open>increment_win_count(username)\<close> in a row, each on the database the
  one before left.\<close>

fun increment_times :: "nat \<Rightarrow> string \<Rightarrow> database \<Rightarrow> database" where
  "increment_times 0 username d = d"
| "increment_times (Suc n) username d =
     increment_times n username (snd (increment_win_count username d))"


section \<open>Python strings\<close>

text \<open>
  A Python \<^verbatim>\<open>str\<close> is a sequence of code points; here it is a \<open>string\<close>, one \<open>char\<close> for
  each code point. \<^verbatim>\<open>s[start:stop]\<close> never raises: a negative index counts from the end,
  and both indices are then clamped to the range from 0 to \<^verbatim>\<open>len(s)\<close>.
\<close>

definition slice_index :: "int \<Rightarrow> int \<Rightarrow> nat" where
  "slice_index n i = nat (if i < 0 then max 0 (i + n) else min i n)"

definition py_slice :: "'a list \<Rightarrow> int \<Rightarrow> int \<Rightarrow> 'a list" where
  "py_slice s start stop =
     (let n = int (length s); lo = slice_index n start; hi = slice_index n stop
      in if lo < hi then take (hi - lo) (drop lo s) else [])"

text \<open>\<^verbatim>\<open>s.lstrip(chars)\<close> removes every leading character that occurs in \<^verbatim>\<open>chars\<close>.\<close>

definition lstrip :: "string \<Rightarrow> string \<Rightarrow> string" where
  "lstrip chars s = dropWhile (\<lambda>c. c \<in> set chars) s"

text \<open>\<^verbatim>\<open>sep.join(xs)\<close>.\<close>

fun join :: "string \<Rightarrow> string list \<Rightarrow> string" where
  "join sep [] = []"
| "join sep [x] = x"
| "join sep (x # y # ys) = x @ sep @ join sep (y # ys)"

text \<open>The decimal text of an integer, as an f-string renders it.\<close>

definition digit_char :: "nat \<Rightarrow> char" where
  "digit_char n = ''0123456789'' ! n"

function str_nat :: "nat \<Rightarrow> string" where
  "str_nat n = (if n < 10 then [digit_char n] else str_nat (n div 10) @ [digit_char (n mod 10)])"
  by pat_completeness auto
termination
  by (relation "measure (\<lambda>n. n)") auto

declare str_nat.simps [simp del]

definition str_int :: "int \<Rightarrow> string" where
  "str_int i = (if i < 0 then CHR ''-'' # str_nat (nat (- i)) else str_nat (nat i))"

definition newline :: char where
  "newline = CHR 0x0A"


section \<open>Messages and replies\<close>

text \<open>
  What the handlers read of a Telegram message: the tuple of photo sizes (empty when
  the message has no photo), the caption (\<open>None\<close> when there is none) and the caption's
  entities in order, each with its type, offset and length. What they send is a list
  of replies, each a text with an optional parse mode. Printing and logging are left
  out.
\<close>

record entity =
  entity_type :: string
  entity_offset :: int
  entity_length :: int

record message =
  photo :: "string list"
  caption :: "string option"
  caption_entities :: "entity list"

record reply =
  body :: string
  parse_mode :: "string option"

text \<open>Subscripting a caption that is \<open>None\<close> raises \<^verbatim>\<open>TypeError\<close>.\<close>

text \<open>Lines 120 and 122 of the source: the slice of the caption, and the slice without
  its leading \<^verbatim>\<open>@\<close> characters.\<close>

definition mention_text :: "string \<Rightarrow> entity \<Rightarrow> string" where
  "mention_text c e = py_slice c (entity_offset e) (entity_offset e + entity_length e)"

definition username :: "string \<Rightarrow> entity \<Rightarrow> string" where
  "username c e = lstrip ''@'' (mention_text c e)"

text \<open>The \<^verbatim>\<open>for\<close> loop over the entities, which ends at the first mention (\<^verbatim>\<open>break\<close>).
  An exception of \<^verbatim>\<open>increment_win_count\<close> leaves the handler before the reply is sent.\<close>

fun scan_entities :: "string option \<Rightarrow> entity list \<Rightarrow> database \<Rightarrow> error + (database \<times> reply list)" where
  "scan_entities cap [] d = Inr (d, [])"
| "scan_entities cap (e # es) d =
     (if entity_type e = ''mention'' then
        (case cap of
           None \<Rightarrow> Inl TypeError
         | Some c \<Rightarrow>
             (case increment_win_count (username c e) d of
                (Inl err, d') \<Rightarrow> Inl err
              | (Inr _, d') \<Rightarrow>
                  Inr (d', [\<lparr>body = ''Counted a Catan win for '' @ mention_text c e @ ''!'',
                             parse_mode = None\<rparr>])))
      else scan_entities cap es d)"

definition message_handler :: "message \<Rightarrow> database \<Rightarrow> error + (database \<times> reply list)" where
  "message_handler m d =
     (if photo m = [] then Inr (d, [])
      else if caption_entities m \<noteq> [] then scan_entities (caption m) (caption_entities m) d
      else Inr (d, []))"

definition stats_command :: "database \<Rightarrow> database \<times> reply list" where
  "stats_command d =
     (let (leaderboard, d') = get_leaderboard d
      in if leaderboard = [] then (d', [\<lparr>body = ''No wins recorded yet!'', parse_mode = None\<rparr>])
         else
           (let leaderboard_lines =
                  map (\<lambda>(username, wins). ''@'' @ username @ '': '' @ str_int wins) leaderboard;
                leaderboard_text = join [newline] leaderboard_lines
            in (d', [\<lparr>body = ''**Catan Wins Leaderboard**'' @ [newline] @ leaderboard_text,
                      parse_mode = Some ''Markdown''\<rparr>])))"


section \<open>What the specification asks for, where the code differs\<close>

text \<open>The specification's leaderboard order: counts descending, and among equal counts
  identities ascending.\<close>

definition spec_leaderboard_order :: "row list \<Rightarrow> bool" where
  "spec_leaderboard_order rows =
     sorted_wrt (\<lambda>r s. snd s < snd r \<or> (snd r = snd s \<and> fst r \<le> fst s)) rows"

text \<open>The specification's sigil stripping: a single leading \<^verbatim>\<open>@\<close>, if present.\<close>

definition spec_strip_sigil :: "string \<Rightarrow> string" where
  "spec_strip_sigil s = (case s of [] \<Rightarrow> [] | c # cs \<Rightarrow> if c = CHR ''@'' then cs else s)"

text \<open>A span that lies within the caption.\<close>

definition span_in_bounds :: "string \<Rightarrow> entity \<Rightarrow> bool" where
  "span_in_bounds c e =
     (0 \<le> entity_offset e \<and> 0 \<le> entity_length e
      \<and> entity_offset e + entity_length e \<le> int (length c))"

definition starts_with_sigil :: "string \<Rightarrow> bool" where
  "starts_with_sigil s = (case s of [] \<Rightarrow> False | c # _ \<Rightarrow> c = CHR ''@'')"


section \<open>The increment\<close>

lemma select_wins_insert_row:
  "select_wins u (insert_row u' w rows) =
     (case select_wins u rows of Some v \<Rightarrow> Some v
      | None \<Rightarrow> if u = u' then Some w else None)"
  by (simp add: select_wins_def insert_row_def split: list.splits)

lemma select_wins_update_wins:
  "select_wins u (update_wins c u' rows) =
     (if u = u' then map_option (\<lambda>_. c) (select_wins u rows) else select_wins u rows)"
proof (induction rows)
  case Nil
  show ?case by (simp add: select_wins_def update_wins_def)
next
  case (Cons r rows)
  then show ?case
    by (cases "fst r = u") (auto simp: select_wins_def update_wins_def)
qed

lemma fits_integer_one: "fits_integer 1"
  by (simp add: fits_integer_def min_integer_def max_integer_def)

text \<open>The call returns exactly when the new count fits; the count of an absent identity
  is 0, and 1 fits.\<close>

lemma increment_win_count_returns:
  "fits_integer (stored_count d u + 1) \<Longrightarrow> fst (increment_win_count u d) = Inr None"
  by (cases "select_wins u (winners d)")
    (simp_all add: stored_count_def increment_win_count_def Let_def)

lemma increment_win_count_raises:
  "\<not> fits_integer (stored_count d u + 1) \<Longrightarrow>
     increment_win_count u d = (Inl OverflowError, d\<lparr>connects := Suc (connects d)\<rparr>)"
  by (cases "select_wins u (winners d)")
    (simp_all add: stored_count_def increment_win_count_def Let_def fits_integer_one)

lemma select_wins_increment_same:
  "fits_integer (stored_count d u + 1) \<Longrightarrow>
     select_wins u (winners (snd (increment_win_count u d))) = Some (stored_count d u + 1)"
  by (cases "select_wins u (winners d)")
    (simp_all add: stored_count_def increment_win_count_def Let_def
      select_wins_insert_row select_wins_update_wins)

lemma stored_count_increment_same:
  "fits_integer (stored_count d u + 1) \<Longrightarrow>
     stored_count (snd (increment_win_count u d)) u = stored_count d u + 1"
  using select_wins_increment_same [of d u] by (simp add: stored_count_def)

lemma select_wins_increment_other:
  "u' \<noteq> u \<Longrightarrow>
     select_wins u' (winners (snd (increment_win_count u d))) = select_wins u' (winners d)"
  by (simp add: increment_win_count_def Let_def
      select_wins_insert_row select_wins_update_wins split: option.splits)

lemma connects_increment_win_count:
  "connects (snd (increment_win_count u d)) = Suc (connects d)"
  by (simp add: increment_win_count_def Let_def split: option.splits)

text \<open>
  Claim C2, as the code has it. For every identity, \<^verbatim>\<open>increment_win_count\<close> opens one
  connection and reads the current count (0 when the identity has no row). When the
  count plus 1 fits an SQLite INTEGER, it persists the new value: afterwards the row
  exists and its count is the old one plus 1; the caller gets \<open>None\<close>, not the new
  value. When it does not fit, the call raises \<^verbatim>\<open>OverflowError\<close> and the rows are as
  they were.
\<close>

theorem increment_win_count_persists:
  "(fits_integer (stored_count d u + 1) \<longrightarrow>
      stored_count (snd (increment_win_count u d)) u = stored_count d u + 1
      \<and> select_wins u (winners (snd (increment_win_count u d)))
          = Some (stored_count d u + 1)
      \<and> fst (increment_win_count u d) = Inr None)
   \<and> (\<not> fits_integer (stored_count d u + 1) \<longrightarrow>
      fst (increment_win_count u d) = Inl OverflowError
      \<and> winners (snd (increment_win_count u d)) = winners d)
   \<and> connects (snd (increment_win_count u d)) = Suc (connects d)"
proof -
  have "winners (snd (increment_win_count u d)) = winners d
        \<and> fst (increment_win_count u d) = Inl OverflowError"
    if "\<not> fits_integer (stored_count d u + 1)"
    using increment_win_count_raises [OF that] by simp
  then show ?thesis
    using stored_count_increment_same [of d u] select_wins_increment_same [of d u]
      increment_win_count_returns [of d u] connects_increment_win_count [of u d]
    by blast
qed

theorem increment_win_count_persists_witness:
  "fits_integer (stored_count \<lparr>winners = [(''alice'', 2)], connects = 0\<rparr> ''alice'' + 1)
   \<and> stored_count (snd (increment_win_count ''alice'' \<lparr>winners = [(''alice'', 2)], connects = 0\<rparr>))
        ''alice'' = 3
   \<and> fst (increment_win_count ''alice'' \<lparr>winners = [(''alice'', 2)], connects = 0\<rparr>) = Inr None
   \<and> \<not> fits_integer
         (stored_count \<lparr>winners = [(''alice'', 9223372036854775807)], connects = 0\<rparr> ''alice'' + 1)
   \<and> fst (increment_win_count ''alice''
            \<lparr>winners = [(''alice'', 9223372036854775807)], connects = 0\<rparr>) = Inl OverflowError
   \<and> winners (snd (increment_win_count ''alice''
                     \<lparr>winners = [(''alice'', 9223372036854775807)], connects = 0\<rparr>))
       = [(''alice'', 9223372036854775807)]"
proof -
  have fits: "fits_integer (stored_count \<lparr>winners = [(''alice'', 2)], connects = 0\<rparr> ''alice'' + 1)"
    by (simp add: stored_count_def select_wins_def fits_integer_def min_integer_def
        max_integer_def)
  have full: "\<not> fits_integer
      (stored_count \<lparr>winners = [(''alice'', 9223372036854775807)], connects = 0\<rparr> ''alice'' + 1)"
    by (simp add: stored_count_def select_wins_def fits_integer_def min_integer_def
        max_integer_def)
  have two: "stored_count \<lparr>winners = [(''alice'', 2)], connects = 0\<rparr> ''alice'' = 2"
    by (simp add: stored_count_def select_wins_def)
  show ?thesis
    using fits full two
      increment_win_count_persists [of "\<lparr>winners = [(''alice'', 2)], connects = 0\<rparr>" "''alice''"]
      increment_win_count_persists
        [of "\<lparr>winners = [(''alice'', 9223372036854775807)], connects = 0\<rparr>" "''alice''"]
    by simp
qed

text \<open>
  Claim C2 as the spec states it fails: on the empty table the new value is 1, and the
  call returns \<open>None\<close>.
\<close>

theorem increment_win_count_returns_counterexample:
  "stored_count (snd (increment_win_count ''alice'' \<lparr>winners = [], connects = 0\<rparr>)) ''alice'' = 1
   \<and> fst (increment_win_count ''alice'' \<lparr>winners = [], connects = 0\<rparr>) = Inr None
   \<and> fst (increment_win_count ''alice'' \<lparr>winners = [], connects = 0\<rparr>) \<noteq> Inr (Some 1)"
  by (simp add: stored_count_def increment_win_count_def Let_def select_wins_def insert_row_def)


section \<open>Repeated increments and isolation\<close>

lemma winners_increment_absent:
  "select_wins x (winners d) = None \<Longrightarrow>
     winners (snd (increment_win_count x d)) = winners d @ [(x, 1)]"
  by (simp add: increment_win_count_def Let_def insert_row_def)

text \<open>From a row with count \<open>w\<close>, \<open>n\<close> calls give the count \<open>w + n\<close> as long as that fits.\<close>

lemma increment_times_present:
  "select_wins x (winners d) = Some w \<Longrightarrow> min_integer \<le> w + 1 \<Longrightarrow> w + int n \<le> max_integer \<Longrightarrow>
     select_wins x (winners (increment_times n x d)) = Some (w + int n)"
proof (induction n arbitrary: d w)
  case 0
  then show ?case by simp
next
  case (Suc n)
  from Suc.prems have cnt: "stored_count d x = w"
    by (simp add: stored_count_def)
  from Suc.prems have fits: "fits_integer (stored_count d x + 1)"
    by (simp add: cnt fits_integer_def)
  have step: "select_wins x (winners (snd (increment_win_count x d))) = Some (w + 1)"
    using select_wins_increment_same [OF fits] by (simp add: cnt)
  have "select_wins x (winners (increment_times n x (snd (increment_win_count x d))))
          = Some (w + 1 + int n)"
    using step Suc.prems by (intro Suc.IH) simp_all
  then show ?case by (simp add: add.assoc add.commute)
qed

text \<open>
  Claim C6. For every identity \<open>x\<close> that has no row, \<open>n \<ge> 1\<close> calls of
  \<^verbatim>\<open>increment_win_count(x)\<close> leave a row for \<open>x\<close> whose count is exactly \<open>n\<close>; the first
  call creates the row, with count 1, after the rows that were there. The number of
  calls is within the counts an SQLite INTEGER holds, \<open>n \<le> 2\<^sup>6\<^sup>3 - 1\<close>.
\<close>

theorem increment_times_from_absent:
  assumes "select_wins x (winners d) = None" and "1 \<le> n" and "int n \<le> max_integer"
  shows "select_wins x (winners (increment_times n x d)) = Some (int n)
         \<and> stored_count (increment_times n x d) x = int n
         \<and> winners (increment_times 1 x d) = winners d @ [(x, 1)]"
proof -
  from assms(2) obtain k where n: "n = Suc k"
    by (cases n) auto
  let ?d1 = "snd (increment_win_count x d)"
  have first: "winners ?d1 = winners d @ [(x, 1)]"
    using assms(1) by (rule winners_increment_absent)
  have one: "select_wins x (winners ?d1) = Some 1"
    using assms(1) by (simp add: first select_wins_insert_row [unfolded insert_row_def])
  have "select_wins x (winners (increment_times k x ?d1)) = Some (1 + int k)"
    using one assms(3) by (intro increment_times_present) (simp_all add: n min_integer_def)
  then have sel: "select_wins x (winners (increment_times n x d)) = Some (int n)"
    by (simp add: n)
  then have "stored_count (increment_times n x d) x = int n"
    by (simp add: stored_count_def)
  with sel first show ?thesis by simp
qed

theorem increment_times_from_absent_witness:
  "select_wins ''alice'' (winners \<lparr>winners = [(''bob'', 2)], connects = 0\<rparr>) = None
   \<and> int 3 \<le> max_integer
   \<and> stored_count (increment_times 3 ''alice'' \<lparr>winners = [(''bob'', 2)], connects = 0\<rparr>) ''alice'' = 3"
proof -
  have h: "select_wins ''alice'' (winners \<lparr>winners = [(''bob'', 2)], connects = 0\<rparr>) = None"
    by (simp add: select_wins_def)
  have b: "int 3 \<le> max_integer"
    by (simp add: max_integer_def)
  show ?thesis
    using h b increment_times_from_absent [OF h _ b] by simp
qed

lemma filter_update_wins_other:
  "filter (\<lambda>r. fst r \<noteq> x) (update_wins c x rows) = filter (\<lambda>r. fst r \<noteq> x) rows"
  by (induction rows) (simp_all add: update_wins_def)

text \<open>
  Claim C7. For distinct identities \<open>x\<close> and \<open>y\<close>, \<^verbatim>\<open>increment_win_count(x)\<close> leaves the
  stored count of \<open>y\<close> as it was; the rows of all other identities are the same rows in
  the same order, none created, deleted or modified.
\<close>

theorem increment_win_count_isolated:
  assumes "x \<noteq> y"
  shows "stored_count (snd (increment_win_count x d)) y = stored_count d y
         \<and> select_wins y (winners (snd (increment_win_count x d))) = select_wins y (winners d)
         \<and> filter (\<lambda>r. fst r \<noteq> x) (winners (snd (increment_win_count x d)))
             = filter (\<lambda>r. fst r \<noteq> x) (winners d)"
proof -
  from assms have ne: "y \<noteq> x" by simp
  have sel: "select_wins y (winners (snd (increment_win_count x d))) = select_wins y (winners d)"
    using select_wins_increment_other [OF ne] .
  have "filter (\<lambda>r. fst r \<noteq> x) (winners (snd (increment_win_count x d)))
          = filter (\<lambda>r. fst r \<noteq> x) (winners d)"
    by (simp add: increment_win_count_def Let_def insert_row_def filter_update_wins_other
        split: option.splits)
  with sel show ?thesis by (simp add: stored_count_def)
qed

theorem increment_win_count_isolated_witness:
  "''alice'' \<noteq> ''bob''
   \<and> stored_count (snd (increment_win_count ''alice'' \<lparr>winners = [(''bob'', 2)], connects = 0\<rparr>)) ''bob'' = 2"
proof -
  have h: "''alice'' \<noteq> ''bob''" by simp
  show ?thesis
    using h increment_win_count_isolated [OF h, of "\<lparr>winners = [(''bob'', 2)], connects = 0\<rparr>"]
    by (simp add: stored_count_def select_wins_def)
qed


section \<open>The leaderboard\<close>

lemma sorted_desc_sort_key:
  "sorted_wrt (\<lambda>r s. snd s \<le> snd r) (sort_key (\<lambda>r. - snd r) (rows :: row list))"
proof -
  have "sorted (map (\<lambda>r. - snd r) (sort_key (\<lambda>r. - snd r) rows))"
    by (rule sorted_sort_key)
  then show ?thesis
    by (simp add: sorted_map)
qed

text \<open>
  Claim C1, as the code has it. \<^verbatim>\<open>get_leaderboard\<close> returns every stored row, each once,
  sorted by count descending; rows with equal counts keep the order they have in the
  table (the order of insertion), whatever their identities. The call leaves the rows
  as they are, so a second call on the same contents returns the same list.
\<close>

theorem get_leaderboard_sorted_stable:
  "mset (fst (get_leaderboard d)) = mset (winners d)
   \<and> sorted_wrt (\<lambda>r s. snd s \<le> snd r) (fst (get_leaderboard d))
   \<and> (\<forall>k. filter (\<lambda>r. snd r = k) (fst (get_leaderboard d)) = filter (\<lambda>r. snd r = k) (winners d))
   \<and> winners (snd (get_leaderboard d)) = winners d
   \<and> fst (get_leaderboard (snd (get_leaderboard d))) = fst (get_leaderboard d)"
proof -
  have stable: "filter (\<lambda>r. snd r = k) (sort_key (\<lambda>r. - snd r) (winners d))
                  = filter (\<lambda>r. snd r = k) (winners d)" for k
    using sort_key_stable [of "\<lambda>r. - snd r" "- k" "winners d"] by simp
  show ?thesis
    by (simp add: get_leaderboard_def sorted_desc_sort_key stable)
qed

text \<open>
  Claim C1 as the spec states it fails: after a win for bob and then a win for alice,
  on an empty table, the leaderboard lists bob first, which is not ascending by
  identity.
\<close>

theorem get_leaderboard_tie_counterexample:
  "fst (get_leaderboard
         (snd (increment_win_count ''alice''
                (snd (increment_win_count ''bob'' \<lparr>winners = [], connects = 0\<rparr>)))))
     = [(''bob'', 1), (''alice'', 1)]
   \<and> \<not> spec_leaderboard_order
         (fst (get_leaderboard
                (snd (increment_win_count ''alice''
                       (snd (increment_win_count ''bob'' \<lparr>winners = [], connects = 0\<rparr>))))))"
  by (simp add: spec_leaderboard_order_def get_leaderboard_def increment_win_count_def
      select_wins_def insert_row_def Let_def)


section \<open>Slices, stripping and the scan of the entities\<close>

lemma lstrip_sigil_decompose:
  "\<exists>k. s = replicate k (CHR ''@'') @ lstrip ''@'' s"
proof (induction s)
  case Nil
  show ?case by (simp add: lstrip_def)
next
  case (Cons a s)
  then obtain k where k: "s = replicate k (CHR ''@'') @ lstrip ''@'' s" by blast
  show ?case
  proof (cases "a = CHR ''@''")
    case True
    then have "a # s = replicate (Suc k) (CHR ''@'') @ lstrip ''@'' (a # s)"
      using k by (simp add: lstrip_def)
    then show ?thesis by blast
  next
    case False
    then have "a # s = replicate 0 (CHR ''@'') @ lstrip ''@'' (a # s)"
      by (simp add: lstrip_def)
    then show ?thesis by blast
  qed
qed

lemma lstrip_sigil_no_sigil: "\<not> starts_with_sigil (lstrip ''@'' s)"
  by (induction s) (simp_all add: lstrip_def starts_with_sigil_def)

lemma py_slice_clamped:
  "\<exists>lo hi. lo \<le> hi \<and> hi \<le> length s \<and> py_slice s i j = take (hi - lo) (drop lo s)"
proof (cases "slice_index (int (length s)) i < slice_index (int (length s)) j")
  case True
  have "slice_index (int (length s)) j \<le> length s"
    unfolding slice_index_def by (cases "j < 0") (auto simp: max_def min_def)
  with True show ?thesis
    by (intro exI [of _ "slice_index (int (length s)) i"]
        exI [of _ "slice_index (int (length s)) j"])
      (simp add: py_slice_def Let_def)
next
  case False
  then have "py_slice s i j = take (0 - 0) (drop 0 s)"
    by (simp add: py_slice_def Let_def)
  then show ?thesis by (intro exI [of _ 0]) simp
qed

lemma py_slice_in_bounds:
  "0 \<le> i \<Longrightarrow> 0 \<le> n \<Longrightarrow> i + n \<le> int (length s) \<Longrightarrow>
     py_slice s i (i + n) = take (nat n) (drop (nat i) s)"
proof -
  assume i: "0 \<le> i" and n: "0 \<le> n" and b: "i + n \<le> int (length s)"
  have lo: "slice_index (int (length s)) i = nat i"
    using i n b by (simp add: slice_index_def min_def)
  have hi: "slice_index (int (length s)) (i + n) = nat i + nat n"
    using i n b by (simp add: slice_index_def min_def nat_add_distrib)
  show ?thesis
    by (simp add: py_slice_def Let_def lo hi)
qed

text \<open>A span with non-negative offset and length, within the caption or not: the slice
  starts at the offset and ends at offset + length or at the end of the caption,
  whichever comes first.\<close>

lemma py_slice_nonneg:
  assumes i: "0 \<le> i" and n: "0 \<le> n"
  shows "py_slice s i (i + n) = take (nat n) (drop (nat i) s)"
proof (cases "i + n \<le> int (length s)")
  case True
  with i n show ?thesis by (rule py_slice_in_bounds)
next
  case False
  then have hi: "slice_index (int (length s)) (i + n) = length s"
    using i n by (simp add: slice_index_def min_def)
  show ?thesis
  proof (cases "i < int (length s)")
    case True
    then have lo: "slice_index (int (length s)) i = nat i"
      using i by (simp add: slice_index_def min_def)
    have "length s - nat i \<le> nat n"
      using False i n by linarith
    then have "take (nat n) (drop (nat i) s) = drop (nat i) s"
      by simp
    moreover have "nat i < length s"
      using True i by linarith
    ultimately show ?thesis
      by (simp add: py_slice_def Let_def lo hi)
  next
    case False
    then have lo: "slice_index (int (length s)) i = length s"
      using i by (simp add: slice_index_def min_def)
    have "length s \<le> nat i"
      using False i by linarith
    then show ?thesis
      by (simp add: py_slice_def Let_def lo hi)
  qed
qed

lemma scan_entities_no_mention:
  "\<forall>x\<in>set es. entity_type x \<noteq> ''mention'' \<Longrightarrow> scan_entities cap es d = Inr (d, [])"
  by (induction es) simp_all

lemma scan_entities_first_mention:
  "\<forall>x\<in>set pre. entity_type x \<noteq> ''mention'' \<Longrightarrow> entity_type e = ''mention'' \<Longrightarrow>
     scan_entities (Some c) (pre @ e # post) d =
       (if fits_integer (stored_count d (username c e) + 1)
        then Inr (snd (increment_win_count (username c e) d),
                  [\<lparr>body = ''Counted a Catan win for '' @ mention_text c e @ ''!'',
                    parse_mode = None\<rparr>])
        else Inl OverflowError)"
proof (induction pre)
  case Nil
  show ?case
  proof (cases "fits_integer (stored_count d (username c e) + 1)")
    case True
    from increment_win_count_returns [OF True]
    have "increment_win_count (username c e) d
            = (Inr None, snd (increment_win_count (username c e) d))"
      by (metis prod.collapse)
    with Nil True show ?thesis
      by (simp del: snd_conv split: prod.splits sum.splits) auto
  next
    case False
    with Nil increment_win_count_raises [OF False] show ?thesis by simp
  qed
next
  case (Cons a pre)
  then show ?case by simp
qed

text \<open>Every list of entities with a mention among them splits at its first mention.\<close>

lemma first_mention_split:
  assumes "\<exists>x\<in>set es. entity_type x = ''mention''"
  shows "\<exists>pre e post. es = pre @ e # post \<and> entity_type e = ''mention''
           \<and> (\<forall>x\<in>set pre. entity_type x \<noteq> ''mention'')"
  using split_list_first_prop [OF assms] by blast

lemma message_handler_first_mention:
  assumes "photo m \<noteq> []" and "caption m = Some c" and "caption_entities m = pre @ e # post"
    and "\<forall>x\<in>set pre. entity_type x \<noteq> ''mention''" and "entity_type e = ''mention''"
  shows "message_handler m d =
       (if fits_integer (stored_count d (username c e) + 1)
        then Inr (snd (increment_win_count (username c e) d),
                  [\<lparr>body = ''Counted a Catan win for '' @ mention_text c e @ ''!'',
                    parse_mode = None\<rparr>])
        else Inl OverflowError)"
  using assms scan_entities_first_mention [OF assms(4,5), of c post d]
  by (simp add: message_handler_def)

lemma keys_increment_win_count:
  "fst ` set (winners (snd (increment_win_count u d))) \<subseteq> insert u (fst ` set (winners d))"
  by (auto simp: increment_win_count_def Let_def insert_row_def update_wins_def
      split: option.splits if_splits)

lemma scan_entities_keys:
  "scan_entities cap es d = Inr (d', rs) \<Longrightarrow>
     \<forall>r\<in>set (winners d). \<not> starts_with_sigil (fst r) \<Longrightarrow>
     \<forall>r\<in>set (winners d'). \<not> starts_with_sigil (fst r)"
proof (induction es)
  case Nil
  then show ?case by simp
next
  case (Cons e es)
  show ?case
  proof (cases "entity_type e = ''mention''")
    case False
    with Cons show ?thesis by simp
  next
    case True
    with Cons.prems(1) obtain c where c: "cap = Some c"
      and d': "d' = snd (increment_win_count (username c e) d)"
      by (auto split: option.splits prod.splits sum.splits)
    show ?thesis
    proof
      fix r assume "r \<in> set (winners d')"
      then have "fst r \<in> insert (username c e) (fst ` set (winners d))"
        using keys_increment_win_count [of "username c e" d] d' by blast
      then show "\<not> starts_with_sigil (fst r)"
        using Cons.prems(2) lstrip_sigil_no_sigil [of "mention_text c e"]
        by (auto simp: username_def)
    qed
  qed
qed


section \<open>The identity of a mention\<close>

text \<open>
  Claim C3, as the code has it. The mention text is the slice of the caption at
  [offset, offset + length) when the span lies within the caption, and the identity is
  that text without all of its leading \<^verbatim>\<open>@\<close> characters: the text is some number of
  \<^verbatim>\<open>@\<close> followed by the identity, and the identity does not begin with \<^verbatim>\<open>@\<close>.
\<close>

theorem username_strips_every_sigil:
  "(span_in_bounds c e \<longrightarrow>
      mention_text c e = take (nat (entity_length e)) (drop (nat (entity_offset e)) c))
   \<and> (\<exists>k. mention_text c e = replicate k (CHR ''@'') @ username c e)
   \<and> \<not> starts_with_sigil (username c e)"
proof -
  have "mention_text c e = take (nat (entity_length e)) (drop (nat (entity_offset e)) c)"
    if "span_in_bounds c e"
    using that py_slice_in_bounds [of "entity_offset e" "entity_length e" c]
    by (simp add: span_in_bounds_def mention_text_def)
  moreover have "\<exists>k. mention_text c e = replicate k (CHR ''@'') @ username c e"
    unfolding username_def by (rule lstrip_sigil_decompose)
  moreover have "\<not> starts_with_sigil (username c e)"
    unfolding username_def by (rule lstrip_sigil_no_sigil)
  ultimately show ?thesis by blast
qed

theorem username_strips_every_sigil_witness:
  "span_in_bounds ''gg @@bob'' \<lparr>entity_type = ''mention'', entity_offset = 3, entity_length = 5\<rparr>
   \<and> mention_text ''gg @@bob'' \<lparr>entity_type = ''mention'', entity_offset = 3, entity_length = 5\<rparr>
       = ''@@bob''
   \<and> \<not> starts_with_sigil
         (username ''gg @@bob'' \<lparr>entity_type = ''mention'', entity_offset = 3, entity_length = 5\<rparr>)"
proof -
  have h: "span_in_bounds ''gg @@bob''
             \<lparr>entity_type = ''mention'', entity_offset = 3, entity_length = 5\<rparr>"
    by (simp add: span_in_bounds_def)
  show ?thesis
    using h username_strips_every_sigil
      [of "''gg @@bob''" "\<lparr>entity_type = ''mention'', entity_offset = 3, entity_length = 5\<rparr>"]
    by simp
qed

text \<open>
  Claim C3 as the spec states it fails: for the slice \<^verbatim>\<open>@@bob\<close>, stripping a single
  sigil would leave \<^verbatim>\<open>@bob\<close>, and the code yields \<^verbatim>\<open>bob\<close>.
\<close>

theorem username_single_sigil_counterexample:
  "mention_text ''@@bob'' \<lparr>entity_type = ''mention'', entity_offset = 0, entity_length = 5\<rparr>
     = ''@@bob''
   \<and> username ''@@bob'' \<lparr>entity_type = ''mention'', entity_offset = 0, entity_length = 5\<rparr>
       = ''bob''
   \<and> spec_strip_sigil ''@@bob'' = ''@bob''
   \<and> username ''@@bob'' \<lparr>entity_type = ''mention'', entity_offset = 0, entity_length = 5\<rparr>
       \<noteq> spec_strip_sigil
           (mention_text ''@@bob'' \<lparr>entity_type = ''mention'', entity_offset = 0, entity_length = 5\<rparr>)"
  by (simp add: username_def mention_text_def py_slice_def slice_index_def lstrip_def
      spec_strip_sigil_def Let_def)


section \<open>The message handler\<close>

text \<open>
  Claim C8. When detection yields nothing, that is, the message has no photo or has a
  photo and no annotation of kind mention, the handler returns the database as it was,
  its count of opened connections included, and sends no reply.
\<close>

theorem message_handler_silent:
  assumes "photo m = [] \<or> (\<forall>e\<in>set (caption_entities m). entity_type e \<noteq> ''mention'')"
  shows "message_handler m d = Inr (d, [])"
  using assms scan_entities_no_mention [of "caption_entities m" "caption m" d]
  by (auto simp: message_handler_def)

theorem message_handler_silent_witness:
  "message_handler
     \<lparr>photo = [], caption = Some ''gg @alice'',
      caption_entities = [\<lparr>entity_type = ''mention'', entity_offset = 3, entity_length = 6\<rparr>]\<rparr>
     \<lparr>winners = [(''bob'', 2)], connects = 4\<rparr>
   = Inr (\<lparr>winners = [(''bob'', 2)], connects = 4\<rparr>, [])
   \<and> message_handler
       \<lparr>photo = [''p1''], caption = Some ''gg #catan'',
        caption_entities = [\<lparr>entity_type = ''hashtag'', entity_offset = 3, entity_length = 6\<rparr>]\<rparr>
       \<lparr>winners = [(''bob'', 2)], connects = 4\<rparr>
     = Inr (\<lparr>winners = [(''bob'', 2)], connects = 4\<rparr>, [])"
  using message_handler_silent
    [of "\<lparr>photo = [], caption = Some ''gg @alice'',
          caption_entities = [\<lparr>entity_type = ''mention'', entity_offset = 3, entity_length = 6\<rparr>]\<rparr>"
        "\<lparr>winners = [(''bob'', 2)], connects = 4\<rparr>"]
    message_handler_silent
    [of "\<lparr>photo = [''p1''], caption = Some ''gg #catan'',
          caption_entities = [\<lparr>entity_type = ''hashtag'', entity_offset = 3, entity_length = 6\<rparr>]\<rparr>"
        "\<lparr>winners = [(''bob'', 2)], connects = 4\<rparr>"]
  by simp

text \<open>
  Claim C5. For a message with a photo and a caption, let \<open>e\<close> be the first annotation of
  kind mention, after annotations \<open>pre\<close> of other kinds and before any annotations
  \<open>post\<close>. The handler honours \<open>e\<close> alone: it makes one call of
  \<^verbatim>\<open>increment_win_count\<close>, for the identity of \<open>e\<close>. When the call returns (the new
  count fits an SQLite INTEGER), that count has grown by exactly 1 while every other
  count stays, and one reply is sent; when it raises, the handler raises and every
  count stays. The annotations after \<open>e\<close>, further mentions among them, change nothing:
  the result is the same without them. By \<open>first_mention_split\<close> every list of
  annotations with a mention has this form.
\<close>

theorem message_handler_first_mention_only:
  assumes "photo m \<noteq> []" and "caption m = Some c" and "caption_entities m = pre @ e # post"
    and "\<forall>x\<in>set pre. entity_type x \<noteq> ''mention''" and "entity_type e = ''mention''"
  shows "\<exists>d'. d' = snd (increment_win_count (username c e) d)
          \<and> message_handler m d =
              (if fits_integer (stored_count d (username c e) + 1)
               then Inr (d', [\<lparr>body = ''Counted a Catan win for '' @ mention_text c e @ ''!'',
                               parse_mode = None\<rparr>])
               else Inl OverflowError)
          \<and> connects d' = Suc (connects d)
          \<and> stored_count d' (username c e) =
              (if fits_integer (stored_count d (username c e) + 1)
               then stored_count d (username c e) + 1 else stored_count d (username c e))
          \<and> (\<forall>u. u \<noteq> username c e \<longrightarrow> stored_count d' u = stored_count d u)
          \<and> message_handler (m\<lparr>caption_entities := pre @ [e]\<rparr>) d = message_handler m d"
proof -
  let ?u = "username c e"
  let ?d' = "snd (increment_win_count ?u d)"
  have run: "message_handler m d =
      (if fits_integer (stored_count d ?u + 1)
       then Inr (?d', [\<lparr>body = ''Counted a Catan win for '' @ mention_text c e @ ''!'',
                        parse_mode = None\<rparr>])
       else Inl OverflowError)"
    using assms by (rule message_handler_first_mention)
  have short: "message_handler (m\<lparr>caption_entities := pre @ [e]\<rparr>) d = message_handler m d"
    unfolding run
    by (rule message_handler_first_mention [where pre = pre and post = "[]"])
      (use assms in simp_all)
  have con: "connects ?d' = Suc (connects d)"
    by (rule connects_increment_win_count)
  have other: "stored_count ?d' u = stored_count d u" if "u \<noteq> ?u" for u
    using select_wins_increment_other [OF that, of d] by (simp add: stored_count_def)
  have same: "stored_count ?d' ?u =
      (if fits_integer (stored_count d ?u + 1) then stored_count d ?u + 1 else stored_count d ?u)"
  proof (cases "fits_integer (stored_count d ?u + 1)")
    case True
    then show ?thesis by (simp add: stored_count_increment_same)
  next
    case False
    then show ?thesis
      using increment_win_count_raises [OF False] by (simp add: stored_count_def)
  qed
  show ?thesis
    using run short con other same by blast
qed

theorem message_handler_first_mention_only_witness:
  "photo \<lparr>photo = [''p1''], caption = Some ''gg @alice @bob'',
          caption_entities = [\<lparr>entity_type = ''bold'', entity_offset = 0, entity_length = 2\<rparr>,
                              \<lparr>entity_type = ''mention'', entity_offset = 3, entity_length = 6\<rparr>,
                              \<lparr>entity_type = ''mention'', entity_offset = 10, entity_length = 4\<rparr>]\<rparr> \<noteq> []
   \<and> message_handler
        \<lparr>photo = [''p1''], caption = Some ''gg @alice @bob'',
          caption_entities = [\<lparr>entity_type = ''bold'', entity_offset = 0, entity_length = 2\<rparr>,
                              \<lparr>entity_type = ''mention'', entity_offset = 3, entity_length = 6\<rparr>,
                              \<lparr>entity_type = ''mention'', entity_offset = 10, entity_length = 4\<rparr>]\<rparr>
        \<lparr>winners = [(''bob'', 2)], connects = 0\<rparr>
      = Inr (\<lparr>winners = [(''bob'', 2), (''alice'', 1)], connects = 1\<rparr>,
             [\<lparr>body = ''Counted a Catan win for @alice!'', parse_mode = None\<rparr>])"
  using message_handler_first_mention_only
    [of "\<lparr>photo = [''p1''], caption = Some ''gg @alice @bob'',
          caption_entities = [\<lparr>entity_type = ''bold'', entity_offset = 0, entity_length = 2\<rparr>,
                              \<lparr>entity_type = ''mention'', entity_offset = 3, entity_length = 6\<rparr>,
                              \<lparr>entity_type = ''mention'', entity_offset = 10, entity_length = 4\<rparr>]\<rparr>"
        "''gg @alice @bob''"
        "[\<lparr>entity_type = ''bold'', entity_offset = 0, entity_length = 2\<rparr>]"
        "\<lparr>entity_type = ''mention'', entity_offset = 3, entity_length = 6\<rparr>"
        "[\<lparr>entity_type = ''mention'', entity_offset = 10, entity_length = 4\<rparr>]"
        "\<lparr>winners = [(''bob'', 2)], connects = 0\<rparr>"]
  by (simp add: username_def mention_text_def py_slice_def slice_index_def lstrip_def
      increment_win_count_def select_wins_def insert_row_def Let_def stored_count_def
      fits_integer_def min_integer_def max_integer_def)

text \<open>
  Claim C4, as the code has it. The handler checks no span against the caption, and an
  out-of-bounds span never makes it index out of bounds. For a span with non-negative
  offset and length the mention text is exactly the caption from the offset up to
  offset + length or to the end of the caption, whichever comes first; it is empty
  when the offset is at or past the end. The annotation is not skipped: when it is the
  first annotation of kind mention of a message with a photo and a caption, this text
  without its leading \<^verbatim>\<open>@\<close> characters is the identity that is incremented, the reply
  is sent, and the scan ends there (the handler raises only when the new count does
  not fit an SQLite INTEGER).
\<close>

theorem message_handler_clamps_span:
  assumes "photo m \<noteq> []" and "caption m = Some c" and "caption_entities m = pre @ e # post"
    and "\<forall>x\<in>set pre. entity_type x \<noteq> ''mention''" and "entity_type e = ''mention''"
    and "0 \<le> entity_offset e" and "0 \<le> entity_length e"
  shows "mention_text c e = take (nat (entity_length e)) (drop (nat (entity_offset e)) c)
         \<and> username c e
             = lstrip ''@'' (take (nat (entity_length e)) (drop (nat (entity_offset e)) c))
         \<and> (int (length c) \<le> entity_offset e \<longrightarrow> mention_text c e = [] \<and> username c e = [])
         \<and> message_handler m d =
             (if fits_integer (stored_count d (username c e) + 1)
              then Inr (snd (increment_win_count (username c e) d),
                        [\<lparr>body = ''Counted a Catan win for '' @ mention_text c e @ ''!'',
                          parse_mode = None\<rparr>])
              else Inl OverflowError)"
proof -
  have slice: "mention_text c e = take (nat (entity_length e)) (drop (nat (entity_offset e)) c)"
    unfolding mention_text_def using assms(6,7) by (rule py_slice_nonneg)
  then have name: "username c e
      = lstrip ''@'' (take (nat (entity_length e)) (drop (nat (entity_offset e)) c))"
    by (simp add: username_def)
  have past: "mention_text c e = [] \<and> username c e = []"
    if "int (length c) \<le> entity_offset e"
  proof -
    from that have "length c \<le> nat (entity_offset e)" by linarith
    then show ?thesis by (simp add: slice name lstrip_def)
  qed
  from slice name past message_handler_first_mention [OF assms(1-5), of d]
  show ?thesis by blast
qed

theorem message_handler_clamps_span_witness:
  "\<not> span_in_bounds ''hi'' \<lparr>entity_type = ''mention'', entity_offset = 1, entity_length = 7\<rparr>
   \<and> mention_text ''hi'' \<lparr>entity_type = ''mention'', entity_offset = 1, entity_length = 7\<rparr> = ''i''
   \<and> message_handler
        \<lparr>photo = [''p1''], caption = Some ''hi'',
          caption_entities = [\<lparr>entity_type = ''mention'', entity_offset = 1, entity_length = 7\<rparr>,
                              \<lparr>entity_type = ''mention'', entity_offset = 0, entity_length = 2\<rparr>]\<rparr>
        \<lparr>winners = [], connects = 0\<rparr>
      = Inr (\<lparr>winners = [(''i'', 1)], connects = 1\<rparr>,
             [\<lparr>body = ''Counted a Catan win for i!'', parse_mode = None\<rparr>])"
  using message_handler_clamps_span
    [of "\<lparr>photo = [''p1''], caption = Some ''hi'',
          caption_entities = [\<lparr>entity_type = ''mention'', entity_offset = 1, entity_length = 7\<rparr>,
                              \<lparr>entity_type = ''mention'', entity_offset = 0, entity_length = 2\<rparr>]\<rparr>"
        "''hi''" "[]"
        "\<lparr>entity_type = ''mention'', entity_offset = 1, entity_length = 7\<rparr>"
        "[\<lparr>entity_type = ''mention'', entity_offset = 0, entity_length = 2\<rparr>]"
        "\<lparr>winners = [], connects = 0\<rparr>"]
  by (simp add: username_def lstrip_def increment_win_count_def select_wins_def insert_row_def
      Let_def span_in_bounds_def stored_count_def fits_integer_def min_integer_def
      max_integer_def)

text \<open>
  Claim C4 as the spec states it fails: the first mention spans [5, 8) of the caption
  \<^verbatim>\<open>hi\<close> and the second spans [0, 2). The handler does not skip the first and go on to
  the second: it counts a win for the empty identity, and the result differs from the
  one for the message without the malformed annotation.
\<close>

theorem message_handler_malformed_counterexample:
  "\<not> span_in_bounds ''hi'' \<lparr>entity_type = ''mention'', entity_offset = 5, entity_length = 3\<rparr>
   \<and> span_in_bounds ''hi'' \<lparr>entity_type = ''mention'', entity_offset = 0, entity_length = 2\<rparr>
   \<and> message_handler
        \<lparr>photo = [''p1''], caption = Some ''hi'',
          caption_entities = [\<lparr>entity_type = ''mention'', entity_offset = 5, entity_length = 3\<rparr>,
                              \<lparr>entity_type = ''mention'', entity_offset = 0, entity_length = 2\<rparr>]\<rparr>
        \<lparr>winners = [], connects = 0\<rparr>
      = Inr (\<lparr>winners = [('''', 1)], connects = 1\<rparr>,
             [\<lparr>body = ''Counted a Catan win for !'', parse_mode = None\<rparr>])
   \<and> message_handler
        \<lparr>photo = [''p1''], caption = Some ''hi'',
          caption_entities = [\<lparr>entity_type = ''mention'', entity_offset = 5, entity_length = 3\<rparr>,
                              \<lparr>entity_type = ''mention'', entity_offset = 0, entity_length = 2\<rparr>]\<rparr>
        \<lparr>winners = [], connects = 0\<rparr>
      \<noteq> message_handler
        \<lparr>photo = [''p1''], caption = Some ''hi'',
          caption_entities = [\<lparr>entity_type = ''mention'', entity_offset = 0, entity_length = 2\<rparr>]\<rparr>
        \<lparr>winners = [], connects = 0\<rparr>"
  by (simp add: message_handler_def username_def mention_text_def py_slice_def slice_index_def
      lstrip_def increment_win_count_def select_wins_def insert_row_def Let_def span_in_bounds_def)

text \<open>
  Claim C10. The identity the handler extracts and passes to \<^verbatim>\<open>increment_win_count\<close>
  never begins with \<^verbatim>\<open>@\<close>; so when no key of the table begins with \<^verbatim>\<open>@\<close> before the
  handler runs, none does afterwards.
\<close>

theorem stored_identity_never_sigil:
  "\<not> starts_with_sigil (username c e)
   \<and> ((\<forall>r\<in>set (winners d). \<not> starts_with_sigil (fst r)) \<longrightarrow>
        message_handler m d = Inr (d', rs) \<longrightarrow>
        (\<forall>r\<in>set (winners d'). \<not> starts_with_sigil (fst r)))"
proof -
  have "\<forall>r\<in>set (winners d'). \<not> starts_with_sigil (fst r)"
    if inv: "\<forall>r\<in>set (winners d). \<not> starts_with_sigil (fst r)"
      and run: "message_handler m d = Inr (d', rs)"
  proof (cases "photo m \<noteq> [] \<and> caption_entities m \<noteq> []")
    case True
    with run have "scan_entities (caption m) (caption_entities m) d = Inr (d', rs)"
      by (simp add: message_handler_def)
    then show ?thesis using inv by (rule scan_entities_keys)
  next
    case False
    with run have "d' = d" by (auto simp: message_handler_def split: if_splits)
    with inv show ?thesis by simp
  qed
  moreover have "\<not> starts_with_sigil (username c e)"
    unfolding username_def by (rule lstrip_sigil_no_sigil)
  ultimately show ?thesis by blast
qed

theorem stored_identity_never_sigil_witness:
  "\<not> starts_with_sigil ''bob''
   \<and> message_handler
        \<lparr>photo = [''p1''], caption = Some ''@@@carol'',
          caption_entities = [\<lparr>entity_type = ''mention'', entity_offset = 0, entity_length = 8\<rparr>]\<rparr>
        \<lparr>winners = [(''bob'', 2)], connects = 0\<rparr>
      = Inr (\<lparr>winners = [(''bob'', 2), (''carol'', 1)], connects = 1\<rparr>,
             [\<lparr>body = ''Counted a Catan win for @@@carol!'', parse_mode = None\<rparr>])
   \<and> \<not> starts_with_sigil ''carol''
   \<and> \<not> starts_with_sigil
         (username ''@@@carol'' \<lparr>entity_type = ''mention'', entity_offset = 0, entity_length = 8\<rparr>)"
proof -
  have inv: "\<forall>r\<in>set (winners \<lparr>winners = [(''bob'', 2)], connects = 0\<rparr>). \<not> starts_with_sigil (fst r)"
    by (simp add: starts_with_sigil_def)
  have run: "message_handler
        \<lparr>photo = [''p1''], caption = Some ''@@@carol'',
          caption_entities = [\<lparr>entity_type = ''mention'', entity_offset = 0, entity_length = 8\<rparr>]\<rparr>
        \<lparr>winners = [(''bob'', 2)], connects = 0\<rparr>
      = Inr (\<lparr>winners = [(''bob'', 2), (''carol'', 1)], connects = 1\<rparr>,
             [\<lparr>body = ''Counted a Catan win for @@@carol!'', parse_mode = None\<rparr>])"
    by (simp add: message_handler_def username_def mention_text_def py_slice_def slice_index_def
        lstrip_def increment_win_count_def select_wins_def insert_row_def Let_def)
  note inst = stored_identity_never_sigil
    [of "''@@@carol''" "\<lparr>entity_type = ''mention'', entity_offset = 0, entity_length = 8\<rparr>"
        "\<lparr>winners = [(''bob'', 2)], connects = 0\<rparr>"
        "\<lparr>photo = [''p1''], caption = Some ''@@@carol'',
          caption_entities = [\<lparr>entity_type = ''mention'', entity_offset = 0, entity_length = 8\<rparr>]\<rparr>"
        "\<lparr>winners = [(''bob'', 2), (''carol'', 1)], connects = 1\<rparr>"
        "[\<lparr>body = ''Counted a Catan win for @@@carol!'', parse_mode = None\<rparr>]"]
  from inst inv run
  have after: "\<forall>r\<in>set (winners \<lparr>winners = [(''bob'', 2), (''carol'', 1)], connects = 1\<rparr>).
         \<not> starts_with_sigil (fst r)"
    by blast
  from inst have "\<not> starts_with_sigil
         (username ''@@@carol'' \<lparr>entity_type = ''mention'', entity_offset = 0, entity_length = 8\<rparr>)"
    by blast
  with inv run after show ?thesis by simp
qed

section \<open>The stats command\<close>

lemma join_lines:
  "xs \<noteq> [] \<Longrightarrow> sep @ join sep xs = concat (map (\<lambda>x. sep @ x) xs)"
  by (induction sep xs rule: join.induct) simp_all

lemma get_leaderboard_empty_iff: "fst (get_leaderboard d) = [] \<longleftrightarrow> winners d = []"
proof -
  have "length (fst (get_leaderboard d)) = length (winners d)"
    by (simp add: get_leaderboard_def)
  then show ?thesis by (metis length_0_conv)
qed

text \<open>
  Claim C9. \<^verbatim>\<open>stats_command\<close> sends one reply. It is the fixed text
  \<^verbatim>\<open>No wins recorded yet!\<close> exactly when \<^verbatim>\<open>get_leaderboard\<close> returns the empty list, which
  is when the table has no row. Otherwise it is the header \<^verbatim>\<open>**Catan Wins Leaderboard**\<close>
  followed, for each entry in the order \<^verbatim>\<open>get_leaderboard\<close> returned, by a newline and
  the line \<^verbatim>\<open>@identity: count\<close>, sent as Markdown.
\<close>

theorem stats_command_reply:
  "snd (stats_command d) =
     (if fst (get_leaderboard d) = []
      then [\<lparr>body = ''No wins recorded yet!'', parse_mode = None\<rparr>]
      else [\<lparr>body = ''**Catan Wins Leaderboard**''
                     @ concat (map (\<lambda>r. [newline] @ ''@'' @ fst r @ '': '' @ str_int (snd r))
                                 (fst (get_leaderboard d))),
              parse_mode = Some ''Markdown''\<rparr>])
   \<and> (map body (snd (stats_command d)) = [''No wins recorded yet!'']
        \<longleftrightarrow> fst (get_leaderboard d) = [])
   \<and> (fst (get_leaderboard d) = [] \<longleftrightarrow> winners d = [])
   \<and> fst (stats_command d) = snd (get_leaderboard d)"
proof (cases "fst (get_leaderboard d) = []")
  case True
  then show ?thesis
    using get_leaderboard_empty_iff [of d]
    by (simp add: stats_command_def split_beta)
next
  case False
  let ?lb = "fst (get_leaderboard d)"
  have lines: "map (\<lambda>(username, wins). ''@'' @ username @ '': '' @ str_int wins) ?lb \<noteq> []"
    using False by simp
  have "[newline] @ join [newline]
          (map (\<lambda>(username, wins). ''@'' @ username @ '': '' @ str_int wins) ?lb)
        = concat (map (\<lambda>r. [newline] @ ''@'' @ fst r @ '': '' @ str_int (snd r)) ?lb)"
    unfolding join_lines [OF lines] by (simp add: comp_def split_beta)
  then show ?thesis
    using False get_leaderboard_empty_iff [of d]
    by (simp add: stats_command_def split_beta Let_def)
qed

theorem stats_command_reply_witness:
  "snd (stats_command \<lparr>winners = [(''bob'', 1), (''alice'', 12), (''zed'', 5)], connects = 0\<rparr>)
     = [\<lparr>body = ''**Catan Wins Leaderboard**'' @ [newline] @ ''@alice: 12'' @ [newline]
                 @ ''@zed: 5'' @ [newline] @ ''@bob: 1'',
         parse_mode = Some ''Markdown''\<rparr>]
   \<and> snd (stats_command \<lparr>winners = [], connects = 0\<rparr>)
     = [\<lparr>body = ''No wins recorded yet!'', parse_mode = None\<rparr>]"
  using stats_command_reply [of "\<lparr>winners = [(''bob'', 1), (''alice'', 12), (''zed'', 5)], connects = 0\<rparr>"]
    stats_command_reply [of "\<lparr>winners = [], connects = 0\<rparr>"]
  by (simp add: get_leaderboard_def str_int_def str_nat.simps digit_char_def)

end
